theory Spec2Isabelle
  imports Main "HOL-Library.AList" "HOL-Library.Sublist"
begin

section \<open>Strings and path segments\<close>

text \<open>
  \<^verbatim>\<open>path.split("/")\<close>: the pieces between the separators, so the empty string gives
  one empty piece and \<^verbatim>\<open>"/"\<close> gives two.
\<close>

fun split_slash :: "string \<Rightarrow> string list" where
  "split_slash [] = [[]]"
| "split_slash (c # cs) =
     (if c = CHR ''/'' then [] # split_slash cs
      else (case split_slash cs of [] \<Rightarrow> [[c]] | s # ss \<Rightarrow> (c # s) # ss))"

text \<open>\<^verbatim>\<open>path.split("/").filter(Boolean)\<close>: the empty string is the only falsy string.\<close>

definition parts :: "string \<Rightarrow> string list" where
  "parts path = filter (\<lambda>s. s \<noteq> []) (split_slash path)"

text \<open>\<^verbatim>\<open>part.startsWith(":")\<close>\<close>

fun startsWithColon :: "string \<Rightarrow> bool" where
  "startsWithColon [] = False"
| "startsWithColon (c # cs) = (c = CHR '':'')"

text \<open>\<^verbatim>\<open>req.method.toUpperCase()\<close>, on the ASCII letters an HTTP method token is made of.\<close>

definition upper_char :: "char \<Rightarrow> char" where
  "upper_char c =
     (let n = (of_char c :: nat) in if 97 \<le> n \<and> n \<le> 122 then char_of (n - 32) else c)"

definition toUpperCase :: "string \<Rightarrow> string" where
  "toUpperCase s = map upper_char s"

section \<open>Plain JavaScript objects used as dictionaries\<close>

text \<open>
  \<^verbatim>\<open>staticRoutes\<close>, the blueprint's per-method route objects and \<^verbatim>\<open>params\<close> are
  plain objects. The store is an association list in insertion order; an assignment to an
  existing key keeps the key's position. Enumeration (\<^verbatim>\<open>Object.entries\<close>,
  \<^verbatim>\<open>for ... in\<close>) lists the array-index keys first, in ascending numeric order, and
  the other string keys after them in insertion order.
\<close>

type_synonym 'v js_object = "(string \<times> 'v) list"

definition is_digit :: "char \<Rightarrow> bool" where
  "is_digit c = (let n = (of_char c :: nat) in 48 \<le> n \<and> n \<le> 57)"

definition digits_value :: "string \<Rightarrow> nat" where
  "digits_value s = foldl (\<lambda>acc c. 10 * acc + ((of_char c :: nat) - 48)) 0 s"

text \<open>An array index is the canonical decimal form of an integer below \<open>2^32 - 1\<close>.\<close>

definition is_array_index :: "string \<Rightarrow> bool" where
  "is_array_index s =
     (case s of
        [] \<Rightarrow> False
      | c # cs \<Rightarrow> list_all is_digit s \<and> (if c = CHR ''0'' then cs = [] else True)
                  \<and> digits_value s < 4294967295)"

definition obj_entries :: "'v js_object \<Rightarrow> (string \<times> 'v) list" where
  "obj_entries obj =
     sort_key (\<lambda>kv. digits_value (fst kv)) (filter (\<lambda>kv. is_array_index (fst kv)) obj)
     @ filter (\<lambda>kv. \<not> is_array_index (fst kv)) obj"

text \<open>
  \<^verbatim>\<open>obj[key] = value\<close> with a string value: assigning a primitive to the key
  \<^verbatim>\<open>__proto__\<close> goes to the prototype setter, which ignores it, so no own property
  appears.
\<close>

definition obj_set :: "string \<Rightarrow> 'v \<Rightarrow> 'v js_object \<Rightarrow> 'v js_object" where
  "obj_set k v obj = (if k = ''__proto__'' then obj else AList.update k v obj)"

section \<open>The route tree\<close>

text \<open>
  \<^verbatim>\<open>interface RouteNode { children: Map<string, RouteNode>; paramName?: string;
  handler?: Function }\<close>. A \<^verbatim>\<open>Map\<close> is an association list with distinct keys:
  \<^verbatim>\<open>has\<close>/\<^verbatim>\<open>get\<close> are \<^const>\<open>map_of\<close>, \<^verbatim>\<open>set\<close> is
  \<^const>\<open>AList.update\<close>. The handler type is a parameter.
\<close>

datatype 'h RouteNode =
  RouteNode (children: "(string \<times> 'h RouteNode) list") (paramName: "string option")
            (handler: "'h option")

type_synonym 'h NodeMap = "(string \<times> 'h RouteNode) list"

record 'h RouteTree =
  GET_root :: "'h NodeMap"
  POST_root :: "'h NodeMap"

definition createRouteTree :: "'h RouteTree" where
  "createRouteTree = \<lparr> GET_root = [], POST_root = [] \<rparr>"

datatype http_method = GET | POST

datatype error =
  RouteError     \<comment> \<open>\<^verbatim>\<open>Error("Failed to add route handler. Node is undefined.")\<close>\<close>
| TypeError      \<comment> \<open>reading \<^verbatim>\<open>.root\<close> of \<^verbatim>\<open>undefined\<close>\<close>
| Thrown         \<comment> \<open>an exception raised by a middleware or a handler\<close>

text \<open>
  The loop of \<^verbatim>\<open>addRoute\<close> over the segments. The source walks down through the
  maps, creating a node where the key is missing, sets \<^verbatim>\<open>paramName\<close> on a node
  entered through a \<^verbatim>\<open>:\<close> segment, and after the loop stores the handler in the last
  node visited. Every node is referenced from its parent's map only, so the in-place
  updates are the rebuilt path of the tree. The handler argument is the value the caller
  passes: \<open>Some h\<close> for a function, \<open>None\<close> for \<^verbatim>\<open>undefined\<close>, which the parameter
  type \<^verbatim>\<open>Function\<close> does not keep out at run time.
\<close>

fun addParts :: "string list \<Rightarrow> 'h option \<Rightarrow> 'h NodeMap \<Rightarrow> 'h NodeMap" where
  "addParts [] h current = current"
| "addParts (part # rest) h current =
     (let key = (if startsWithColon part then '':'' else part);
          node = (case map_of current key of
                    None \<Rightarrow> RouteNode [] None None
                  | Some n \<Rightarrow> n);
          pn = (if startsWithColon part then Some (drop 1 part) else paramName node)
      in AList.update key
           (if rest = [] then RouteNode (children node) pn h
            else RouteNode (addParts rest h (children node)) pn (handler node))
           current)"

definition root_of :: "http_method \<Rightarrow> 'h RouteTree \<Rightarrow> 'h NodeMap" where
  "root_of m t = (case m of GET \<Rightarrow> GET_root t | POST \<Rightarrow> POST_root t)"

definition set_root :: "http_method \<Rightarrow> 'h NodeMap \<Rightarrow> 'h RouteTree \<Rightarrow> 'h RouteTree" where
  "set_root m r t = (case m of GET \<Rightarrow> t\<lparr>GET_root := r\<rparr> | POST \<Rightarrow> t\<lparr>POST_root := r\<rparr>)"

definition addRoute ::
  "http_method \<Rightarrow> string \<Rightarrow> 'h option \<Rightarrow> 'h RouteTree \<Rightarrow> error + 'h RouteTree" where
  "addRoute m path h t =
     (if path = ''/'' then
        Inr (set_root m (AList.update ''/'' (RouteNode [] None h) (root_of m t)) t)
      else if parts path = [] then Inl RouteError
      else Inr (set_root m (addParts (parts path) h (root_of m t)) t))"

text \<open>
  The loop of \<^verbatim>\<open>matchRoute\<close>: \<open>None\<close> is the early \<^verbatim>\<open>return null\<close>; otherwise
  the last node visited (none when there is no segment), the map reached and the
  parameters. A parameter is bound only when \<^verbatim>\<open>node.paramName\<close> is truthy, that is
  present and not the empty string.
\<close>

type_synonym params = "string js_object"

fun matchParts ::
  "string list \<Rightarrow> 'h NodeMap \<Rightarrow> params \<Rightarrow> 'h RouteNode option
   \<Rightarrow> ('h RouteNode option \<times> 'h NodeMap \<times> params) option" where
  "matchParts [] current ps node = Some (node, current, ps)"
| "matchParts (part # rest) current ps node =
     (case map_of current part of
        Some n \<Rightarrow> matchParts rest (children n) ps (Some n)
      | None \<Rightarrow>
          (case map_of current '':'' of
             Some n \<Rightarrow>
               matchParts rest (children n)
                 (case paramName n of
                    None \<Rightarrow> ps
                  | Some name \<Rightarrow> if name = [] then ps else obj_set name part ps)
                 (Some n)
           | None \<Rightarrow> None))"

text \<open>\<^verbatim>\<open>this.routes[method]\<close> for the method string of a request.\<close>

definition routes_lookup :: "'h RouteTree \<Rightarrow> string \<Rightarrow> 'h NodeMap option" where
  "routes_lookup t m =
     (if m = ''GET'' then Some (GET_root t)
      else if m = ''POST'' then Some (POST_root t)
      else None)"

text \<open>
  The end of \<^verbatim>\<open>matchRoute\<close>: \<^verbatim>\<open>node ??= current.get("/")\<close>, then the handler
  test. \<open>None\<close> is \<^verbatim>\<open>null\<close>.
\<close>

definition finish ::
  "('h RouteNode option \<times> 'h NodeMap \<times> params) option \<Rightarrow> ('h \<times> params) option" where
  "finish r =
     (case r of
        None \<Rightarrow> None
      | Some (node, current, ps) \<Rightarrow>
          (case (case node of None \<Rightarrow> map_of current ''/'' | Some n \<Rightarrow> Some n) of
             None \<Rightarrow> None
           | Some n \<Rightarrow>
               (case handler n of
                  None \<Rightarrow> None
                | Some h \<Rightarrow> Some (h, ps))))"

definition matchRoute ::
  "'h RouteTree \<Rightarrow> string \<Rightarrow> string \<Rightarrow> error + ('h \<times> params) option" where
  "matchRoute t m path =
     (case routes_lookup t m of
        None \<Rightarrow> Inl TypeError
      | Some root \<Rightarrow>
          Inr (finish (matchParts (if path = ''/'' then [] else parts path) root [] None)))"

definition method_name :: "http_method \<Rightarrow> string" where
  "method_name m = (case m of GET \<Rightarrow> ''GET'' | POST \<Rightarrow> ''POST'')"

section \<open>Requests, responses, middlewares and handlers\<close>

text \<open>
  A request carries its method, the path name of its URL and the optional
  \<^verbatim>\<open>params\<close> field of \<^verbatim>\<open>IRequest\<close>. A middleware may change the request
  object, may call \<^verbatim>\<open>next\<close> and may throw: it maps the request to an error or to
  the flag \<^verbatim>\<open>nextCalled\<close> with the request as it left it. A handler maps the request
  to an error or a response.
\<close>

record request =
  req_method :: string
  pathname :: string
  req_params :: "params option"

datatype body = Text string | Bytes string

record response =
  status :: nat
  body :: body

type_synonym Middleware = "request \<Rightarrow> error + (bool \<times> request)"
type_synonym Handler = "request \<Rightarrow> error + response"

text \<open>
  What \<^verbatim>\<open>handle\<close> calls, in order: the middleware at a position of the chain, the
  route handler, the read of a file. The list is the record of one call of
  \<^verbatim>\<open>handle\<close>.
\<close>

datatype event = MiddlewareCalled nat | HandlerCalled | FileRead string

text \<open>
  The collaborators of the static fallback: \<^verbatim>\<open>path.join\<close> and the file read
  \<^verbatim>\<open>file(filePath).arrayBuffer()\<close>, which gives the bytes or fails for some cause.
\<close>

datatype io_error = NoSuchFile | PermissionDenied | IsADirectory | OtherFailure

record env =
  join :: "string \<Rightarrow> string \<Rightarrow> string"
  file_bytes :: "string \<Rightarrow> io_error + string"

record Bunwork =
  middlewares :: "Middleware list"
  routes :: "Handler RouteTree"
  staticRoutes :: "string js_object"

definition new_Bunwork :: Bunwork where
  "new_Bunwork = \<lparr> middlewares = [], routes = createRouteTree, staticRoutes = [] \<rparr>"

definition middleware :: "Middleware \<Rightarrow> Bunwork \<Rightarrow> Bunwork" where
  "middleware fn app = app\<lparr>middlewares := middlewares app @ [fn]\<rparr>"

definition static :: "string \<Rightarrow> string \<Rightarrow> Bunwork \<Rightarrow> Bunwork" where
  "static route directoryPath app =
     app\<lparr>staticRoutes := obj_set route directoryPath (staticRoutes app)\<rparr>"

text \<open>
  A registration returns the application as the call leaves it, with the exception when
  the call throws.
\<close>

definition app_addRoute :: "http_method \<Rightarrow> string \<Rightarrow> Handler \<Rightarrow> Bunwork \<Rightarrow> error option \<times> Bunwork" where
  "app_addRoute m path h app =
     (case addRoute m path (Some h) (routes app) of
        Inl e \<Rightarrow> (Some e, app)
      | Inr t \<Rightarrow> (None, app\<lparr>routes := t\<rparr>))"

definition get :: "string \<Rightarrow> Handler \<Rightarrow> Bunwork \<Rightarrow> error option \<times> Bunwork" where
  "get path h app = app_addRoute GET path h app"

definition post :: "string \<Rightarrow> Handler \<Rightarrow> Bunwork \<Rightarrow> error option \<times> Bunwork" where
  "post path h app = app_addRoute POST path h app"

definition blocked_response :: response where
  "blocked_response = \<lparr> status = 403, body = Text ''Middleware blocked the request'' \<rparr>"

definition not_found_response :: response where
  "not_found_response = \<lparr> status = 404, body = Text ''Not Found'' \<rparr>"

definition file_not_found_response :: response where
  "file_not_found_response = \<lparr> status = 404, body = Text ''File Not Found'' \<rparr>"

text \<open>
  \<^verbatim>\<open>runMiddlewares\<close>: the position in the chain, the request as the previous
  middlewares left it, and the events so far. The result is the error thrown, or the
  blocking response (\<open>None\<close> for \<^verbatim>\<open>null\<close>) with the request.
\<close>

fun runMiddlewares ::
  "Middleware list \<Rightarrow> nat \<Rightarrow> request \<Rightarrow> event list
   \<Rightarrow> (error + (response option \<times> request)) \<times> event list" where
  "runMiddlewares [] i req tr = (Inr (None, req), tr)"
| "runMiddlewares (mw # mws) i req tr =
     (case mw req of
        Inl e \<Rightarrow> (Inl e, tr @ [MiddlewareCalled i])
      | Inr (nextCalled, req') \<Rightarrow>
          if \<not> nextCalled then (Inr (Some blocked_response, req'), tr @ [MiddlewareCalled i])
          else runMiddlewares mws (Suc i) req' (tr @ [MiddlewareCalled i]))"

text \<open>The loop over \<^verbatim>\<open>Object.entries(this.staticRoutes)\<close>.\<close>

fun staticFallback ::
  "env \<Rightarrow> (string \<times> string) list \<Rightarrow> string \<Rightarrow> event list
   \<Rightarrow> (error + response) \<times> event list" where
  "staticFallback e [] path tr = (Inr not_found_response, tr)"
| "staticFallback e ((staticRoute, dirPath) # rest) path tr =
     (if prefix staticRoute path then
        (let filePath = join e dirPath (drop (length staticRoute) path)
         in case file_bytes e filePath of
              Inr bytes \<Rightarrow> (Inr \<lparr> status = 200, body = Bytes bytes \<rparr>, tr @ [FileRead filePath])
            | Inl cause \<Rightarrow> (Inr file_not_found_response, tr @ [FileRead filePath]))
      else staticFallback e rest path tr)"

text \<open>
  \<^verbatim>\<open>handle\<close>. The URL and the method are read before the middlewares run. On a
  match the parameters (an object, so truthy even when empty) are stored in the request
  and the handler's result is returned as it is.
\<close>

definition handle :: "env \<Rightarrow> Bunwork \<Rightarrow> request \<Rightarrow> (error + response) \<times> event list" where
  "handle e app req =
     (let url_pathname = pathname req;
          http_method = toUpperCase (req_method req)
      in case runMiddlewares (middlewares app) 0 req [] of
           (Inl err, tr) \<Rightarrow> (Inl err, tr)
         | (Inr (Some blockedRes, req1), tr) \<Rightarrow> (Inr blockedRes, tr)
         | (Inr (None, req1), tr) \<Rightarrow>
             (case matchRoute (routes app) http_method url_pathname of
                Inl err \<Rightarrow> (Inl err, tr)
              | Inr (Some (h, ps)) \<Rightarrow> (h (req1\<lparr>req_params := Some ps\<rparr>), tr @ [HandlerCalled])
              | Inr None \<Rightarrow> staticFallback e (obj_entries (staticRoutes app)) url_pathname tr))"

section \<open>Blueprints\<close>

text \<open>
  A blueprint stores each route as an object \<^verbatim>\<open>{ handler }\<close> under the key
  \<^verbatim>\<open>`${this.prefix}${path}`\<close> of the object of its method. For every key but one the
  assignment adds or updates an own property. For the key \<^verbatim>\<open>__proto__\<close> the assignment
  of an object goes to the prototype setter: the object \<^verbatim>\<open>{ handler }\<close> becomes the
  prototype of the route object and no own property appears. The record keeps, for each
  method, the own properties and the handler of the object that replaced the prototype,
  if one did.
\<close>

record Blueprint =
  bp_prefix :: string
  bp_GET :: "Handler js_object"
  bp_GET_proto :: "Handler option"
  bp_POST :: "Handler js_object"
  bp_POST_proto :: "Handler option"
  bp_middlewares :: "Middleware list"

definition new_Blueprint :: "string \<Rightarrow> Blueprint" where
  "new_Blueprint p =
     \<lparr> bp_prefix = p, bp_GET = [], bp_GET_proto = None, bp_POST = [], bp_POST_proto = None,
       bp_middlewares = [] \<rparr>"


definition bp_get :: "string \<Rightarrow> Handler \<Rightarrow> Blueprint \<Rightarrow> Blueprint" where
  "bp_get path h bp =
     (if bp_prefix bp @ path = ''__proto__'' then bp\<lparr>bp_GET_proto := Some h\<rparr>
      else bp\<lparr>bp_GET := AList.update (bp_prefix bp @ path) h (bp_GET bp)\<rparr>)"


text \<open>
  \<^verbatim>\<open>for (const path in blueprintRoutes[method])\<close> with the value
  \<^verbatim>\<open>blueprintRoutes[method][path].handler\<close> of each path. The own keys come first, in
  the order of \<^verbatim>\<open>Object.entries\<close>, each with the handler of its object. When the
  prototype was replaced by an object \<^verbatim>\<open>{ handler }\<close>, its key \<^verbatim>\<open>handler\<close> is listed
  after them unless an own key of that name hides it; the value found under that inherited
  key is the handler function itself, and the property \<^verbatim>\<open>handler\<close> of a function is
  \<^verbatim>\<open>undefined\<close>.
\<close>

definition defined_entries :: "(string \<times> 'h) list \<Rightarrow> (string \<times> 'h option) list" where
  "defined_entries es = map (\<lambda>kv. (fst kv, Some (snd kv))) es"

definition for_in_routes ::
  "Handler js_object \<Rightarrow> Handler option \<Rightarrow> (string \<times> Handler option) list" where
  "for_in_routes own proto =
     defined_entries (obj_entries own)
     @ (case proto of
          None \<Rightarrow> []
        | Some h \<Rightarrow> if map_of own ''handler'' = None then [(''handler'', None)] else [])"

text \<open>
  The inner loop of \<^verbatim>\<open>registerBlueprint\<close> over the paths of one method; an
  exception of \<^verbatim>\<open>addRoute\<close> ends it with the routes added so far.
\<close>

fun addRoutes ::
  "http_method \<Rightarrow> (string \<times> 'h option) list \<Rightarrow> 'h RouteTree \<Rightarrow> error option \<times> 'h RouteTree" where
  "addRoutes m [] t = (None, t)"
| "addRoutes m ((path, h) # rest) t =
     (case addRoute m path h t of
        Inl e \<Rightarrow> (Some e, t)
      | Inr t' \<Rightarrow> addRoutes m rest t')"

definition registerBlueprint :: "Blueprint \<Rightarrow> Bunwork \<Rightarrow> error option \<times> Bunwork" where
  "registerBlueprint bp app =
     (let app1 = app\<lparr>middlewares := middlewares app @ bp_middlewares bp\<rparr>
      in case addRoutes GET (for_in_routes (bp_GET bp) (bp_GET_proto bp)) (routes app1) of
           (Some e, t) \<Rightarrow> (Some e, app1\<lparr>routes := t\<rparr>)
         | (None, t) \<Rightarrow>
             (case addRoutes POST (for_in_routes (bp_POST bp) (bp_POST_proto bp)) t of
                (err, t') \<Rightarrow> (err, app1\<lparr>routes := t'\<rparr>)))"

section \<open>Reading the route tree\<close>

text \<open>
  The key under which \<^verbatim>\<open>addRoute\<close> files a segment, the handler stored at the end
  of a path of keys, the map reached through a path of keys, and the walk of
  \<^verbatim>\<open>matchRoute\<close> recorded as the keys it follows.
\<close>

definition key_of :: "string \<Rightarrow> string" where
  "key_of part = (if startsWithColon part then '':'' else part)"

fun handlerAt :: "string list \<Rightarrow> 'h NodeMap \<Rightarrow> 'h option" where
  "handlerAt [] cs = None"
| "handlerAt (k # ks) cs =
     (case map_of cs k of
        None \<Rightarrow> None
      | Some n \<Rightarrow> if ks = [] then handler n else handlerAt ks (children n))"

text \<open>The \<^verbatim>\<open>paramName\<close> of the node at the end of a path of keys.\<close>

fun paramNameAt :: "string list \<Rightarrow> 'h NodeMap \<Rightarrow> string option" where
  "paramNameAt [] cs = None"
| "paramNameAt (k # ks) cs =
     (case map_of cs k of
        None \<Rightarrow> None
      | Some n \<Rightarrow> if ks = [] then paramName n else paramNameAt ks (children n))"

fun childrenAt :: "string list \<Rightarrow> 'h NodeMap \<Rightarrow> 'h NodeMap" where
  "childrenAt [] cs = cs"
| "childrenAt (k # ks) cs =
     (case map_of cs k of None \<Rightarrow> [] | Some n \<Rightarrow> childrenAt ks (children n))"

fun keyWalk :: "string list \<Rightarrow> 'h NodeMap \<Rightarrow> params \<Rightarrow> (string list \<times> params) option" where
  "keyWalk [] current ps = Some ([], ps)"
| "keyWalk (part # rest) current ps =
     (case map_of current part of
        Some n \<Rightarrow> map_option (apfst ((#) part)) (keyWalk rest (children n) ps)
      | None \<Rightarrow>
          (case map_of current '':'' of
             Some n \<Rightarrow>
               map_option (apfst ((#) '':''))
                 (keyWalk rest (children n)
                    (case paramName n of
                       None \<Rightarrow> ps
                     | Some name \<Rightarrow> if name = [] then ps else obj_set name part ps))
           | None \<Rightarrow> None))"

definition request_parts :: "string \<Rightarrow> string list" where
  "request_parts path = (if path = ''/'' then [] else parts path)"

definition landing :: "string \<Rightarrow> 'h NodeMap \<Rightarrow> (string list \<times> params) option" where
  "landing path root =
     (if request_parts path = [] then Some ([''/''], []) else keyWalk (request_parts path) root [])"

definition keypath :: "string \<Rightarrow> string list" where
  "keypath path = (if path = ''/'' then [''/''] else map key_of (parts path))"

text \<open>
  \<^verbatim>\<open>addRoute\<close> accepts the path \<^verbatim>\<open>/\<close> and every path with a non-empty segment;
  what it then does to the root map of its method, given a function as handler, is
  \<open>insertAt\<close>.
\<close>

definition valid_path :: "string \<Rightarrow> bool" where
  "valid_path p = (if p = ''/'' then True else parts p \<noteq> [])"

definition insertAt :: "string \<Rightarrow> 'h \<Rightarrow> 'h NodeMap \<Rightarrow> 'h NodeMap" where
  "insertAt p h r =
     (if p = ''/'' then AList.update ''/'' (RouteNode [] None (Some h)) r
      else addParts (parts p) (Some h) r)"

text \<open>
  A chain of middlewares passes a request when each of them, given the request as its
  predecessors left it, returns without an exception and has called \<^verbatim>\<open>next\<close>; the
  result is the request after the last one.
\<close>

fun passes :: "Middleware list \<Rightarrow> request \<Rightarrow> request option" where
  "passes [] req = Some req"
| "passes (mw # mws) req =
     (case mw req of
        Inl e \<Rightarrow> None
      | Inr (nextCalled, req') \<Rightarrow> if nextCalled then passes mws req' else None)"

text \<open>
  The registrations an application was built by. \<open>terminals m paths\<close> are the key paths
  at which a loop of \<^verbatim>\<open>addRoute\<close> calls over \<open>paths\<close> stores handlers before it
  stops at the first path that \<^verbatim>\<open>addRoute\<close> rejects; \<open>built app R\<close> says that
  \<open>app\<close> results from a new application by registration calls, each left as it
  returned or threw, and that \<open>R\<close> collects the methods and key paths of the completed
  \<^verbatim>\<open>addRoute\<close> calls; the blueprints are those whose route objects have their original prototype, no route
  having been stored under \<^verbatim>\<open>__proto__\<close>. A key path covers the segments of a request when it has one key
  per segment, the segment itself or \<^verbatim>\<open>:\<close>; the request without segments is covered
  by the key \<^verbatim>\<open>/\<close> alone.
\<close>

definition terminals :: "http_method \<Rightarrow> string list \<Rightarrow> (http_method \<times> string list) set" where
  "terminals m paths = (\<lambda>p. (m, keypath p)) ` set (takeWhile valid_path paths)"

definition blueprint_terminals :: "Blueprint \<Rightarrow> (http_method \<times> string list) set" where
  "blueprint_terminals bp =
     terminals GET (map fst (obj_entries (bp_GET bp)))
     \<union> (if list_all valid_path (map fst (obj_entries (bp_GET bp)))
        then terminals POST (map fst (obj_entries (bp_POST bp))) else {})"

inductive built :: "Bunwork \<Rightarrow> (http_method \<times> string list) set \<Rightarrow> bool" where
  built_new: "built new_Bunwork {}"
| built_get: "built app R \<Longrightarrow> built (snd (get path h app)) (R \<union> terminals GET [path])"
| built_post: "built app R \<Longrightarrow> built (snd (post path h app)) (R \<union> terminals POST [path])"
| built_blueprint:
    "built app R \<Longrightarrow> bp_GET_proto bp = None \<Longrightarrow> bp_POST_proto bp = None \<Longrightarrow>
     built (snd (registerBlueprint bp app)) (R \<union> blueprint_terminals bp)"
| built_middleware: "built app R \<Longrightarrow> built (middleware fn app) R"
| built_static: "built app R \<Longrightarrow> built (static route dir app) R"

definition covers :: "string list \<Rightarrow> string list \<Rightarrow> bool" where
  "covers kp rs =
     (if rs = [] then kp = [''/''] else list_all2 (\<lambda>k r. k = r \<or> k = '':'') kp rs)"

text \<open>
  The key paths at which \<^verbatim>\<open>addRoute\<close> can end: the key \<^verbatim>\<open>/\<close> alone, or keys of
  which the first is not \<^verbatim>\<open>/\<close>. \<open>handler_inv t R\<close>: the handlers of \<open>t\<close> sit exactly
  at the methods and key paths of \<open>R\<close>. \<open>distinct_keys t\<close>: every children map of \<open>t\<close>
  has distinct keys.
\<close>

definition ok_keypath :: "string list \<Rightarrow> bool" where
  "ok_keypath kp = (if kp = [''/''] then True else kp \<noteq> [] \<and> hd kp \<noteq> ''/'')"

definition handler_inv :: "'h RouteTree \<Rightarrow> (http_method \<times> string list) set \<Rightarrow> bool" where
  "handler_inv t R =
     ((\<forall>m kp. (handlerAt kp (root_of m t) \<noteq> None) = ((m, kp) \<in> R))
      \<and> (\<forall>m kp. (m, kp) \<in> R \<longrightarrow> ok_keypath kp))"



section \<open>Segments\<close>

lemma split_slash_ne: "split_slash p \<noteq> []"
  by (induction p) (auto split: list.splits)

lemma parts_Cons_slash: "parts (CHR ''/'' # p) = parts p"
  by (simp add: parts_def)

lemma split_slash_append_slash: "split_slash (p @ ''/'') = split_slash p @ [[]]"
proof (induction p)
  case Nil show ?case by simp
next
  case (Cons c p)
  show ?case
  proof (cases "split_slash p")
    case Nil thus ?thesis using split_slash_ne by blast
  next
    case (Cons s ss) thus ?thesis using Cons.IH by simp
  qed
qed

lemma parts_append_slash: "parts (p @ ''/'') = parts p"
  by (simp add: parts_def split_slash_append_slash)

lemma handlerAt_empty [simp]: "handlerAt ks [] = None"
  by (cases ks) auto

lemma handlerAt_addParts:
  "ps \<noteq> [] \<Longrightarrow> handlerAt ks (addParts ps h cs) = (if ks = map key_of ps then h else handlerAt ks cs)"
proof (induction ps arbitrary: ks cs)
  case Nil thus ?case by simp
next
  case (Cons p ps)
  show ?case
  proof (cases ks)
    case Nil thus ?thesis by simp
  next
    case (Cons k ks')
    show ?thesis
    proof (cases "ps = []")
      case True
      thus ?thesis using Cons
        by (auto simp: Let_def update_conv' key_of_def split: option.splits)
    next
      case False
      thus ?thesis using Cons Cons.IH[OF False]
        by (auto simp: Let_def update_conv' key_of_def split: option.splits)
    qed
  qed
qed

lemma finish_None [simp]: "finish None = None"
  by (simp add: finish_def)

lemma finish_matchParts_Some:
  "finish (matchParts [] cur prm (Some n)) = map_option (\<lambda>h. (h, prm)) (handler n)"
  by (simp add: finish_def split: option.splits)

lemma keyWalk_length: "keyWalk rs cs prm = Some (kp, prm') \<Longrightarrow> length kp = length rs"
  by (induction rs arbitrary: cs prm kp) (auto split: option.splits)

lemma keyWalk_Nil_iff: "keyWalk rs cs prm = Some ([], prm') \<Longrightarrow> rs = []"
  using keyWalk_length by fastforce

lemma finish_matchParts_keyWalk:
  "rs \<noteq> [] \<Longrightarrow>
   finish (matchParts rs cs prm nd) =
     (case keyWalk rs cs prm of
        None \<Rightarrow> None
      | Some (kp, prm') \<Rightarrow> map_option (\<lambda>h. (h, prm')) (handlerAt kp cs))"
proof (induction rs arbitrary: cs prm nd)
  case Nil thus ?case by simp
next
  case (Cons r rs)
  show ?case
  proof (cases "rs = []")
    case True
    thus ?thesis
      by (auto simp: finish_def split: option.splits)
  next
    case False
    show ?thesis using Cons.IH[OF False] False
      by (auto split: option.splits dest: keyWalk_Nil_iff)
  qed
qed

lemma matchRoute_via_request_parts:
  "matchRoute t m p =
     (case routes_lookup t m of
        None \<Rightarrow> Inl TypeError
      | Some root \<Rightarrow> Inr (finish (matchParts (request_parts p) root [] None)))"
  by (simp add: matchRoute_def request_parts_def split: option.splits)

lemma matchRoute_landing:
  "matchRoute t ms path =
     (case routes_lookup t ms of
        None \<Rightarrow> Inl TypeError
      | Some root \<Rightarrow>
          Inr (case landing path root of
                 None \<Rightarrow> None
               | Some (kp, prm) \<Rightarrow> map_option (\<lambda>h. (h, prm)) (handlerAt kp root)))"
proof (cases "request_parts path = []")
  case True
  have "finish (matchParts [] root [] None) = map_option (\<lambda>h. (h, [])) (handlerAt [''/''] root)"
    for root :: "'a NodeMap"
    by (simp add: finish_def split: option.splits)
  thus ?thesis using True
    by (simp add: matchRoute_via_request_parts landing_def split: option.splits)
next
  case False
  show ?thesis
    by (simp add: matchRoute_via_request_parts landing_def False
                  finish_matchParts_keyWalk[OF False] split: option.splits)
qed

lemma request_parts_Cons_slash: "request_parts (CHR ''/'' # p) = request_parts p"
  by (auto simp: request_parts_def parts_Cons_slash parts_def)

lemma request_parts_append_slash: "request_parts (p @ ''/'') = request_parts p"
proof (cases "p = ''/''")
  case True thus ?thesis by (simp add: request_parts_def parts_def)
next
  case False
  have "parts ''/'' = []" by (simp add: parts_def)
  thus ?thesis using False parts_append_slash[of p]
    by (cases p) (auto simp: request_parts_def)
qed

lemma request_parts_slashes:
  "request_parts (replicate i (CHR ''/'') @ p @ replicate j (CHR ''/'')) = request_parts p"
proof -
  have a: "request_parts (q @ replicate j (CHR ''/'')) = request_parts q" for q
  proof (induction j)
    case 0 show ?case by simp
  next
    case (Suc j)
    have "q @ replicate (Suc j) (CHR ''/'') = (q @ replicate j (CHR ''/'')) @ ''/''"
      by (simp add: replicate_append_same)
    thus ?case using Suc request_parts_append_slash[of "q @ replicate j (CHR ''/'')"] by simp
  qed
  have b: "request_parts (replicate i (CHR ''/'') @ q) = request_parts q" for q
    by (induction i) (simp_all add: request_parts_Cons_slash)
  show ?thesis using a[of p] b[of "p @ replicate j (CHR ''/'')"] by simp
qed

lemma matchRoute_request_parts:
  "request_parts p = request_parts q \<Longrightarrow> matchRoute t m p = matchRoute t m q"
  by (simp only: matchRoute_via_request_parts)

section \<open>Leading and trailing slashes\<close>

text \<open>
  C8. Any number of slashes added in front of a request path and behind it leaves the
  result of \<^verbatim>\<open>matchRoute\<close> unchanged, for every method string and table; the empty
  path and \<^verbatim>\<open>/\<close> give the same result. Registering a handler at \<^verbatim>\<open>/\<close>
  succeeds and makes the request \<^verbatim>\<open>/\<close> return that handler with no parameters,
  and in the fresh table \<^verbatim>\<open>/\<close> matches nothing.
\<close>

theorem matchRoute_slashes_insignificant:
  "matchRoute t ms (replicate i (CHR ''/'') @ p @ replicate j (CHR ''/'')) = matchRoute t ms p
   \<and> matchRoute t ms [] = matchRoute t ms ''/''
   \<and> (\<exists>t'. addRoute m ''/'' (Some h) t = Inr t'
             \<and> matchRoute t' (method_name m) ''/'' = Inr (Some (h, []))
             \<and> matchRoute t' (method_name m) [] = Inr (Some (h, [])))
   \<and> matchRoute (createRouteTree :: 'h RouteTree) (method_name m) ''/'' = Inr None"
proof -
  have 1: "matchRoute t ms (replicate i (CHR ''/'') @ p @ replicate j (CHR ''/'')) = matchRoute t ms p"
    by (rule matchRoute_request_parts) (rule request_parts_slashes)
  have 2: "matchRoute t ms [] = matchRoute t ms ''/''"
    by (rule matchRoute_request_parts) (simp add: request_parts_def parts_def)
  have 3: "matchRoute (set_root m (AList.update ''/'' (RouteNode [] None (Some h)) (root_of m t)) t)
             (method_name m) q = Inr (Some (h, []))" if "request_parts q = []" for q
    using that
    by (cases m)
       (auto simp: matchRoute_def routes_lookup_def method_name_def set_root_def root_of_def
                   finish_def update_conv' request_parts_def split: if_splits)
  have 4: "matchRoute (createRouteTree :: 'h RouteTree) (method_name m) ''/'' = Inr None"
    by (cases m)
       (simp_all add: matchRoute_def routes_lookup_def method_name_def createRouteTree_def finish_def)
  have 5: "request_parts ''/'' = []" "request_parts [] = []"
    by (simp_all add: request_parts_def parts_def)
  show ?thesis using 1 2 3[OF 5(1)] 3[OF 5(2)] 4 by (simp add: addRoute_def)
qed

section \<open>Registration and the walk\<close>


lemma split_slash_no_slash: "s \<in> set (split_slash p) \<Longrightarrow> CHR ''/'' \<notin> set s"
proof (induction p arbitrary: s)
  case Nil thus ?case by simp
next
  case (Cons c p)
  show ?case
  proof (cases "split_slash p")
    case Nil thus ?thesis using split_slash_ne by blast
  next
    case (Cons x xs)
    thus ?thesis using Cons.prems Cons.IH by (auto split: if_splits)
  qed
qed

lemma parts_no_slash: "s \<in> set (parts p) \<Longrightarrow> s \<noteq> ''/''"
  using split_slash_no_slash by (fastforce simp: parts_def)

lemma request_parts_no_slash: "s \<in> set (request_parts p) \<Longrightarrow> s \<noteq> ''/''"
  using parts_no_slash by (auto simp: request_parts_def split: if_splits)


lemma keyWalk_cong:
  "map_of cs r = map_of cs' r \<Longrightarrow> map_of cs '':'' = map_of cs' '':'' \<Longrightarrow>
   keyWalk (r # rs) cs prm = keyWalk (r # rs) cs' prm"
  by (simp split: option.splits)


lemma addRoute_insertAt:
  "addRoute m p (Some h) t =
     (if valid_path p then Inr (set_root m (insertAt p h (root_of m t)) t) else Inl RouteError)"
  by (simp add: addRoute_def valid_path_def insertAt_def)

lemma root_of_set_root: "root_of m' (set_root m r t) = (if m' = m then r else root_of m' t)"
  by (cases m; cases m') (simp_all add: root_of_def set_root_def)

lemma routes_lookup_method_name: "routes_lookup t (method_name m) = Some (root_of m t)"
  by (cases m) (simp_all add: routes_lookup_def method_name_def root_of_def)

lemma routes_lookup_set_root:
  "routes_lookup (set_root m r t) ms = (if ms = method_name m then Some r else routes_lookup t ms)"
  by (cases m) (auto simp: routes_lookup_def method_name_def set_root_def)

lemma set_root_set_root: "set_root m r2 (set_root m r1 t) = set_root m r2 t"
  by (cases m) (simp_all add: set_root_def)





lemma keyWalk_keys:
  "keyWalk rs cs prm = Some (kp, prm') \<Longrightarrow> list_all2 (\<lambda>k r. k = r \<or> k = '':'') kp rs"
  by (induction rs arbitrary: cs prm kp) (auto split: option.splits)

lemma landing_cases:
  assumes "landing q r = Some (kp, prm)"
  shows "(kp = [''/''] \<and> prm = [] \<and> request_parts q = [])
         \<or> (request_parts q \<noteq> [] \<and> kp \<noteq> [] \<and> hd kp \<noteq> ''/''
             \<and> list_all2 (\<lambda>k r. k = r \<or> k = '':'') kp (request_parts q))"
proof (cases "request_parts q")
  case Nil thus ?thesis using assms by (auto simp: landing_def)
next
  case (Cons x xs)
  hence kw: "keyWalk (x # xs) r [] = Some (kp, prm)" using assms by (simp add: landing_def)
  have "x \<noteq> ''/''" using request_parts_no_slash[of x q] Cons by simp
  moreover from keyWalk_keys[OF kw] have "list_all2 (\<lambda>k r. k = r \<or> k = '':'') kp (x # xs)" .
  ultimately show ?thesis using Cons by (cases kp) auto
qed


lemma parts_slash: "parts ''/'' = []"
  by (simp add: parts_def)

lemma keypath_hd:
  assumes "valid_path p" "p \<noteq> ''/''"
  shows "keypath p \<noteq> [] \<and> hd (keypath p) \<noteq> ''/''"
proof -
  from assms obtain x xs where px: "parts p = x # xs"
    by (cases "parts p") (auto simp: valid_path_def)
  hence "x \<noteq> ''/''" using parts_no_slash[of x p] by simp
  thus ?thesis using px assms by (auto simp: keypath_def key_of_def)
qed


lemma keyWalk_addParts_literal:
  "ps \<noteq> [] \<Longrightarrow> list_all (\<lambda>s. \<not> startsWithColon s) ps \<Longrightarrow>
   keyWalk ps (addParts ps h cs) prm = Some (ps, prm)"
proof (induction ps arbitrary: cs)
  case Nil thus ?case by simp
next
  case (Cons p ps)
  show ?case
  proof (cases "ps = []")
    case True thus ?thesis using Cons.prems by (simp add: Let_def update_conv')
  next
    case False
    thus ?thesis using Cons.prems Cons.IH[OF False]
      by (simp add: Let_def update_conv')
  qed
qed

lemma map_key_of_literal: "list_all (\<lambda>s. \<not> startsWithColon s) ps \<Longrightarrow> map key_of ps = ps"
  by (induction ps) (simp_all add: key_of_def)


section \<open>Registering twice at the same method and pattern\<close>



lemma handlerAt_keyWalk:
  "ks \<noteq> [] \<Longrightarrow> handlerAt ks cs = Some h \<Longrightarrow> keyWalk ks cs prm = Some (ks, prm)"
proof (induction ks arbitrary: cs)
  case Nil thus ?case by simp
next
  case (Cons k ks)
  show ?case
  proof (cases "ks = []")
    case True thus ?thesis using Cons.prems by (auto split: option.splits)
  next
    case False
    thus ?thesis using Cons.prems Cons.IH[OF False]
      by (auto split: option.splits)
  qed
qed

lemma matchRoute_handlerAt:
  assumes "parts q \<noteq> []" "handlerAt (parts q) (root_of m t) = Some h"
  shows "matchRoute t (method_name m) q = Inr (Some (h, []))"
proof -
  have "q \<noteq> ''/''" using assms(1) by (auto simp: parts_slash)
  hence "landing q (root_of m t) = Some (parts q, [])"
    using assms handlerAt_keyWalk[OF assms] by (simp add: landing_def request_parts_def)
  thus ?thesis using assms(2) by (simp add: matchRoute_landing routes_lookup_method_name)
qed

section \<open>Literal children before the dynamic child\<close>

text \<open>
  C1. For every table, method and pair of patterns that share their leading literal
  segments and end in a literal segment and in a \<^verbatim>\<open>:\<close> segment at the same position,
  registering both, in either order, succeeds, and a request for the literal path then
  returns the handler registered under the literal pattern, with no parameter bound. At any
  map of any table, a segment that is the key of a child sends the walk to that child,
  whether or not the map has a dynamic child.
\<close>

theorem literal_child_precedence:
  assumes "parts p_lit = pre @ [lit]" and "parts p_dyn = pre @ [d]"
    and "startsWithColon d" and "list_all (\<lambda>s. \<not> startsWithColon s) (pre @ [lit])"
  shows "(\<exists>t1 t2. addRoute m p_lit (Some h_lit) t = Inr t1 \<and> addRoute m p_dyn (Some h_dyn) t1 = Inr t2
            \<and> matchRoute t2 (method_name m) p_lit = Inr (Some (h_lit, [])))
       \<and> (\<exists>t1 t2. addRoute m p_dyn (Some h_dyn) t = Inr t1 \<and> addRoute m p_lit (Some h_lit) t1 = Inr t2
            \<and> matchRoute t2 (method_name m) p_lit = Inr (Some (h_lit, [])))
       \<and> (map_of cs lit = Some n \<longrightarrow>
            matchParts (lit # rest) cs prm nd = matchParts rest (children n) prm (Some n))"
proof -
  define r where "r = root_of m t"
  have nl: "p_lit \<noteq> ''/''" and nd: "p_dyn \<noteq> ''/''"
    using assms(1,2) by (auto simp: parts_slash)
  have il: "insertAt p_lit h_lit x = addParts (pre @ [lit]) (Some h_lit) x" for x
    using nl assms(1) by (simp add: insertAt_def)
  have id: "insertAt p_dyn h_dyn x = addParts (pre @ [d]) (Some h_dyn) x" for x
    using nd assms(2) by (simp add: insertAt_def)
  have vl: "valid_path p_lit" and vd: "valid_path p_dyn"
    using assms(1,2) by (auto simp: valid_path_def)
  have kl: "map key_of (pre @ [lit]) = pre @ [lit]"
    using assms(4) by (rule map_key_of_literal)
  have "lit \<noteq> '':''" using assms(4) by auto
  moreover have "map key_of pre = pre" using kl by simp
  ultimately have kd: "map key_of (pre @ [d]) \<noteq> pre @ [lit]"
    using assms(3) by (simp add: key_of_def)
  define tA where "tA = set_root m (insertAt p_dyn h_dyn (insertAt p_lit h_lit r)) t"
  define tB where "tB = set_root m (insertAt p_lit h_lit (insertAt p_dyn h_dyn r)) t"
  have hA: "handlerAt (parts p_lit) (root_of m tA) = Some h_lit"
    using kl kd by (simp add: tA_def root_of_set_root il id assms(1) handlerAt_addParts)
  have hB: "handlerAt (parts p_lit) (root_of m tB) = Some h_lit"
    using kl by (simp add: tB_def root_of_set_root il assms(1) handlerAt_addParts)
  have ne: "parts p_lit \<noteq> []" using assms(1) by simp
  have A: "addRoute m p_dyn (Some h_dyn) (set_root m (insertAt p_lit h_lit r) t) = Inr tA"
    by (simp add: addRoute_insertAt vd tA_def root_of_set_root set_root_set_root)
  have B: "addRoute m p_lit (Some h_lit) (set_root m (insertAt p_dyn h_dyn r) t) = Inr tB"
    by (simp add: addRoute_insertAt vl tB_def root_of_set_root set_root_set_root)
  have C: "map_of cs lit = Some n \<longrightarrow>
            matchParts (lit # rest) cs prm nd = matchParts rest (children n) prm (Some n)"
    by simp
  have AB: "(\<exists>t1 t2. addRoute m p_lit (Some h_lit) t = Inr t1 \<and> addRoute m p_dyn (Some h_dyn) t1 = Inr t2
            \<and> matchRoute t2 (method_name m) p_lit = Inr (Some (h_lit, [])))
       \<and> (\<exists>t1 t2. addRoute m p_dyn (Some h_dyn) t = Inr t1 \<and> addRoute m p_lit (Some h_lit) t1 = Inr t2
            \<and> matchRoute t2 (method_name m) p_lit = Inr (Some (h_lit, [])))"
    using A B matchRoute_handlerAt[OF ne hA] matchRoute_handlerAt[OF ne hB]
    by (simp add: addRoute_insertAt vl vd r_def)
  show ?thesis using AB C by blast
qed

theorem literal_child_precedence_witness:
  "\<exists>t1 t2. addRoute GET ''/users/me'' (Some (1::nat)) createRouteTree = Inr t1
      \<and> addRoute GET ''/users/:id'' (Some 2) t1 = Inr t2
      \<and> matchRoute t2 ''GET'' ''/users/me'' = Inr (Some (1, []))"
proof -
  have 1: "parts ''/users/me'' = [''users''] @ [''me'']" by (simp add: parts_def)
  have 2: "parts ''/users/:id'' = [''users''] @ ['':id'']" by (simp add: parts_def)
  have 3: "startsWithColon '':id''" by simp
  have 4: "list_all (\<lambda>s. \<not> startsWithColon s) ([''users''] @ [''me''])" by simp
  show ?thesis
    using literal_child_precedence[OF 1 2 3 4, where m=GET and h_lit="1::nat"
            and t=createRouteTree and h_dyn=2, THEN conjunct1]
    by (simp add: method_name_def)
qed

lemma childrenAt_empty [simp]: "childrenAt ks [] = []"
  by (cases ks) simp_all

lemma keyWalk_addParts_prefix:
  "list_all (\<lambda>s. \<not> startsWithColon s) p1 \<Longrightarrow> rest \<noteq> [] \<Longrightarrow>
   keyWalk (p1 @ rs) (addParts (p1 @ rest) h cs) prm
     = map_option (apfst ((@) p1)) (keyWalk rs (addParts rest h (childrenAt p1 cs)) prm)"
proof (induction p1 arbitrary: cs)
  case Nil
  show ?case by (simp add: option.map_ident apfst_def map_prod_def split_def)
next
  case (Cons p p1)
  have ne: "p1 @ rest \<noteq> []" using Cons.prems by simp
  have lit: "\<not> startsWithColon p" "list_all (\<lambda>s. \<not> startsWithColon s) p1"
    using Cons.prems by simp_all
  show ?case
    using Cons.IH[OF lit(2) Cons.prems(2)] lit(1) ne
    by (cases "map_of cs p")
       (simp_all add: Let_def update_conv' option.map_comp comp_def apfst_def map_prod_def split_def)
qed

lemma keyWalk_addParts_dynamic:
  assumes "s \<noteq> '':''" "map_of cs s = None" "name \<noteq> []"
    and "list_all (\<lambda>s. \<not> startsWithColon s) p2"
  shows "keyWalk (s # p2) (addParts ((CHR '':'' # name) # p2) h cs) prm
           = Some ('':'' # p2, obj_set name s prm)"
proof (cases "p2 = []")
  case True
  thus ?thesis using assms by (simp add: Let_def update_conv')
next
  case False
  thus ?thesis using assms keyWalk_addParts_literal[OF False assms(4)]
    by (simp add: Let_def update_conv')
qed

section \<open>Dynamic segments\<close>

text \<open>
  Directly after a pattern is registered whose segments are literal segments \<open>p1\<close>, one
  segment \<^verbatim>\<open>:name\<close> and literal segments \<open>p2\<close>, a request with the segments
  \<open>p1\<close>, \<open>s\<close>, \<open>p2\<close> returns the registered handler with \<open>name\<close> bound to \<open>s\<close>,
  when \<open>s\<close> was not the key of a child at that position before.
\<close>

lemma dynamic_segment_binds_after_registration:
  assumes "parts pat = p1 @ [CHR '':'' # name] @ p2"
    and "list_all (\<lambda>s. \<not> startsWithColon s) (p1 @ p2)"
    and "parts q = p1 @ [s] @ p2"
    and "map_of (childrenAt p1 (root_of m t)) s = None"
    and "s \<noteq> '':''" and "name \<noteq> []" and "name \<noteq> ''__proto__''"
  shows "\<exists>t'. addRoute m pat (Some h) t = Inr t'
           \<and> matchRoute t' (method_name m) q = Inr (Some (h, [(name, s)]))"
proof -
  define r where "r = root_of m t"
  define d where "d = CHR '':'' # name"
  have np: "pat \<noteq> ''/''" and nq: "q \<noteq> ''/''"
    using assms(1,3) by (auto simp: parts_slash)
  have v: "valid_path pat" using assms(1) by (simp add: valid_path_def)
  have l1: "list_all (\<lambda>s. \<not> startsWithColon s) p1" and l2: "list_all (\<lambda>s. \<not> startsWithColon s) p2"
    using assms(2) by simp_all
  have kw: "keyWalk (p1 @ s # p2) (addParts (p1 @ d # p2) (Some h) r) []
              = Some (p1 @ '':'' # p2, [(name, s)])"
    using keyWalk_addParts_prefix[OF l1, of "d # p2" "s # p2" "Some h" r "[]"]
          keyWalk_addParts_dynamic[OF assms(5) _ assms(6) l2, of "childrenAt p1 r" "Some h" "[]"]
          assms(4,7)
    by (simp add: r_def d_def obj_set_def)
  have kp: "map key_of (p1 @ d # p2) = p1 @ '':'' # p2"
    using map_key_of_literal[OF l1] map_key_of_literal[OF l2] by (simp add: key_of_def d_def)
  have ha: "handlerAt (p1 @ '':'' # p2) (addParts (p1 @ d # p2) (Some h) r) = Some h"
    using handlerAt_addParts[of "p1 @ d # p2" "p1 @ '':'' # p2" "Some h" r] kp by simp
  have ld: "landing q (insertAt pat h r) = Some (p1 @ '':'' # p2, [(name, s)])"
    using np nq assms(1,3) kw by (simp add: landing_def request_parts_def insertAt_def d_def)
  have "matchRoute (set_root m (insertAt pat h r) t) (method_name m) q = Inr (Some (h, [(name, s)]))"
    using ld ha np assms(1)
    by (simp add: matchRoute_landing routes_lookup_set_root insertAt_def d_def)
  thus ?thesis by (simp add: addRoute_insertAt v r_def)
qed

lemma dynamic_segment_binds_after_registration_example:
  "\<exists>t'. addRoute GET ''/hello/:name'' (Some (1::nat)) createRouteTree = Inr t'
      \<and> matchRoute t' ''GET'' ''/hello/john'' = Inr (Some (1, [(''name'', ''john'')]))"
proof -
  have 1: "parts ''/hello/:name'' = [''hello''] @ [CHR '':'' # ''name''] @ []" by (simp add: parts_def)
  have 2: "list_all (\<lambda>s. \<not> startsWithColon s) ([''hello''] @ [])" by simp
  have 3: "parts ''/hello/john'' = [''hello''] @ [''john''] @ []" by (simp add: parts_def)
  have 4: "map_of (childrenAt [''hello''] (root_of GET (createRouteTree :: nat RouteTree))) ''john'' = None"
    by (simp add: root_of_def createRouteTree_def)
  have 5: "''john'' \<noteq> '':''" "''name'' \<noteq> []" "''name'' \<noteq> ''__proto__''" by simp_all
  show ?thesis
    using dynamic_segment_binds_after_registration[OF 1 2 3 4 5, of 1]
    by (simp add: method_name_def)
qed

lemma keyWalk_dynamic_any_time:
  assumes "handlerAt (k1 @ '':'' # k2) cs = Some h"
    and "paramNameAt (k1 @ ['':'']) cs = Some name"
    and "map_of (childrenAt k1 cs) s = None"
    and "name \<noteq> []"
  shows "keyWalk (k1 @ s # k2) cs prm = Some (k1 @ '':'' # k2, obj_set name s prm)"
  using assms
proof (induction k1 arbitrary: cs)
  case Nil
  from Nil.prems(1) obtain d where d: "map_of cs '':'' = Some d"
    by (auto split: option.splits)
  have pn: "paramName d = Some name" using Nil.prems(2) d by simp
  have s: "map_of cs s = None" using Nil.prems(3) by simp
  show ?case
  proof (cases "k2 = []")
    case True
    thus ?thesis using d pn s Nil.prems(4) by simp
  next
    case False
    hence "handlerAt k2 (children d) = Some h" using Nil.prems(1) d by simp
    from handlerAt_keyWalk[OF False this, of "obj_set name s prm"]
    show ?thesis using d pn s Nil.prems(4) by simp
  qed
next
  case (Cons k ks)
  from Cons.prems(1) obtain n where n: "map_of cs k = Some n"
    by (auto split: option.splits)
  have 1: "handlerAt (ks @ '':'' # k2) (children n) = Some h" using Cons.prems(1) n by simp
  have 2: "paramNameAt (ks @ ['':'']) (children n) = Some name" using Cons.prems(2) n by simp
  have 3: "map_of (childrenAt ks (children n)) s = None" using Cons.prems(3) n by simp
  from Cons.IH[OF 1 2 3 Cons.prems(4)] show ?case using n by simp
qed

text \<open>
  C4, as amended. In every table, at any time: take a dynamic route, that is a handler at
  the end of the key path made of keys \<open>k1\<close>, the key \<^verbatim>\<open>:\<close> and keys \<open>k2\<close>, whose
  node under \<^verbatim>\<open>:\<close> carries the parameter name \<open>name\<close>, neither empty nor
  \<^verbatim>\<open>__proto__\<close>. Every request with the segments \<open>k1\<close>, \<open>s\<close>, \<open>k2\<close> returns that
  handler with exactly the one parameter \<open>name\<close> bound to \<open>s\<close>, provided \<open>s\<close> is not the
  key of a child at the position of the dynamic segment (the key \<^verbatim>\<open>:\<close> of the dynamic
  child is one of those keys). The segment \<open>s\<close> is otherwise arbitrary. For a pattern of
  literal segments around \<^verbatim>\<open>:name\<close> the keys \<open>k1\<close> and \<open>k2\<close> are its literal
  segments.
\<close>

theorem dynamic_segment_binds:
  assumes "parts q = k1 @ [s] @ k2"
    and "handlerAt (k1 @ '':'' # k2) (root_of m t) = Some h"
    and "paramNameAt (k1 @ ['':'']) (root_of m t) = Some name"
    and "map_of (childrenAt k1 (root_of m t)) s = None"
    and "name \<noteq> []" and "name \<noteq> ''__proto__''"
  shows "matchRoute t (method_name m) q = Inr (Some (h, [(name, s)]))"
proof -
  have nq: "q \<noteq> ''/''" using assms(1) by (auto simp: parts_slash)
  have "keyWalk (k1 @ s # k2) (root_of m t) [] = Some (k1 @ '':'' # k2, [(name, s)])"
    using keyWalk_dynamic_any_time[OF assms(2,3,4,5), of "[]"] assms(6) by (simp add: obj_set_def)
  hence "landing q (root_of m t) = Some (k1 @ '':'' # k2, [(name, s)])"
    using nq assms(1) by (simp add: landing_def request_parts_def)
  thus ?thesis using assms(2) by (simp add: matchRoute_landing routes_lookup_method_name)
qed

theorem dynamic_segment_binds_witness:
  "\<exists>t1 t2. addRoute GET ''/hello/:name/x'' (Some (1::nat)) createRouteTree = Inr t1
      \<and> addRoute GET ''/hello/world'' (Some 2) t1 = Inr t2
      \<and> matchRoute t2 ''GET'' ''/hello/john/x'' = Inr (Some (1, [(''name'', ''john'')]))"
proof -
  define t2 :: "nat RouteTree" where
    "t2 = \<lparr> GET_root =
             [(''hello'', RouteNode
                [('':'', RouteNode [(''x'', RouteNode [] None (Some 1))] (Some ''name'') None),
                 (''world'', RouteNode [] None (Some 2))] None None)],
           POST_root = [] \<rparr>"
  have r: "\<exists>t1. addRoute GET ''/hello/:name/x'' (Some (1::nat)) createRouteTree = Inr t1
             \<and> addRoute GET ''/hello/world'' (Some 2) t1 = Inr t2"
    by (simp add: t2_def addRoute_def parts_def root_of_def set_root_def createRouteTree_def Let_def)
  have 1: "parts ''/hello/john/x'' = [''hello''] @ [''john''] @ [''x'']" by (simp add: parts_def)
  have 2: "handlerAt ([''hello''] @ '':'' # [''x'']) (root_of GET t2) = Some 1"
    by (simp add: t2_def root_of_def)
  have 3: "paramNameAt ([''hello''] @ ['':'']) (root_of GET t2) = Some ''name''"
    by (simp add: t2_def root_of_def)
  have 4: "map_of (childrenAt [''hello''] (root_of GET t2)) ''john'' = None"
    by (simp add: t2_def root_of_def)
  have 5: "''name'' \<noteq> []" "''name'' \<noteq> ''__proto__''" by simp_all
  have "matchRoute t2 ''GET'' ''/hello/john/x'' = Inr (Some (1, [(''name'', ''john'')]))"
    using dynamic_segment_binds[OF 1 2 3 4 5] by (simp add: method_name_def)
  thus ?thesis using r by blast
qed

text \<open>
  C4 as stated fails: with \<^verbatim>\<open>/a/:id/b\<close> and \<^verbatim>\<open>/a/x\<close> registered, the request
  \<^verbatim>\<open>/a/x/b\<close> follows the literal child \<^verbatim>\<open>x\<close>, finds no child \<^verbatim>\<open>b\<close> there
  and matches nothing; the walk never goes back to the dynamic child.
\<close>

theorem dynamic_segment_counterexample:
  "\<exists>t1 t2. addRoute GET ''/a/:id/b'' (Some (1::nat)) createRouteTree = Inr t1
      \<and> addRoute GET ''/a/x'' (Some 2) t1 = Inr t2
      \<and> matchRoute t2 ''GET'' ''/a/x/b'' = Inr None"
  by (simp add: addRoute_def parts_def root_of_def set_root_def createRouteTree_def Let_def
                matchRoute_def routes_lookup_def)

text \<open>
  The request segment \<^verbatim>\<open>:\<close> is found by \<^verbatim>\<open>current.has(part)\<close>, because the
  dynamic child is filed under the key \<^verbatim>\<open>:\<close>; the handler is returned and no
  parameter is bound.
\<close>

lemma colon_segment_not_bound:
  "\<exists>t1. addRoute GET ''/a/:id/b'' (Some (1::nat)) createRouteTree = Inr t1
      \<and> matchRoute t1 ''GET'' ''/a/:/b'' = Inr (Some (1, []))"
  by (simp add: addRoute_def parts_def root_of_def set_root_def createRouteTree_def Let_def
                matchRoute_def routes_lookup_def finish_def)

section \<open>The middleware chain\<close>

lemma runMiddlewares_blocked:
  "passes xs req = Some req_i \<Longrightarrow> mw req_i = Inr (False, req') \<Longrightarrow>
   runMiddlewares (xs @ mw # ys) k req tr
     = (Inr (Some blocked_response, req'), tr @ map MiddlewareCalled [k..<Suc (k + length xs)])"
proof (induction xs arbitrary: k req tr)
  case Nil
  thus ?case by simp
next
  case (Cons x xs)
  from Cons.prems(1) obtain r1 where x: "x req = Inr (True, r1)" and p: "passes xs r1 = Some req_i"
    by (auto split: sum.splits if_splits)
  have "[k..<Suc (k + length (x # xs))] = k # [Suc k..<Suc (k + length (x # xs))]"
    by (rule upt_conv_Cons) simp
  hence "[k..<Suc (k + length (x # xs))] = k # [Suc k..<Suc (Suc k + length xs)]" by simp
  thus ?case using Cons.IH[OF p Cons.prems(2), of "Suc k" "tr @ [MiddlewareCalled k]"] x
    by simp
qed

lemma runMiddlewares_passes:
  "passes xs req = Some req1 \<Longrightarrow>
   runMiddlewares xs k req tr = (Inr (None, req1), tr @ map MiddlewareCalled [k..<k + length xs])"
proof (induction xs arbitrary: k req tr)
  case Nil
  thus ?case by simp
next
  case (Cons x xs)
  from Cons.prems(1) obtain r1 where x: "x req = Inr (True, r1)" and p: "passes xs r1 = Some req1"
    by (auto split: sum.splits if_splits)
  have "[k..<k + length (x # xs)] = k # [Suc k..<k + length (x # xs)]"
    by (rule upt_conv_Cons) simp
  hence "[k..<k + length (x # xs)] = k # [Suc k..<Suc k + length xs]" by simp
  thus ?case using Cons.IH[OF p, of "Suc k" "tr @ [MiddlewareCalled k]"] x
    by simp
qed

text \<open>
  C2. When the middlewares before position \<open>i\<close> of the chain pass the request and the
  middleware at position \<open>i\<close> returns without having called \<^verbatim>\<open>next\<close>,
  \<^verbatim>\<open>handle\<close> returns the response with status 403 and the fixed body, and the calls it
  has made are exactly the middlewares at positions \<open>0\<close> to \<open>i\<close> in that order: no later
  middleware, no route handler, no file read.
\<close>

theorem blocking_middleware_halts:
  assumes "i < length (middlewares app)"
    and "passes (take i (middlewares app)) req = Some req_i"
    and "(middlewares app ! i) req_i = Inr (False, req')"
  shows "handle e app req = (Inr blocked_response, map MiddlewareCalled [0..<Suc i])
         \<and> status blocked_response = 403
         \<and> body blocked_response = Text ''Middleware blocked the request''"
proof -
  have split: "middlewares app = take i (middlewares app) @ (middlewares app ! i) # drop (Suc i) (middlewares app)"
    using assms(1) by (simp add: id_take_nth_drop)
  have len: "length (take i (middlewares app)) = i" using assms(1) by simp
  have "runMiddlewares (middlewares app) 0 req []
          = (Inr (Some blocked_response, req'), map MiddlewareCalled [0..<Suc i])"
    using runMiddlewares_blocked[where xs="take i (middlewares app)" and mw="middlewares app ! i"
            and ys="drop (Suc i) (middlewares app)" and k=0 and tr="[]", OF assms(2,3)] split len
    by simp
  thus ?thesis by (simp add: handle_def blocked_response_def)
qed

theorem blocking_middleware_halts_witness:
  "handle \<lparr> join = (@), file_bytes = (\<lambda>f. Inl NoSuchFile) \<rparr>
     \<lparr> middlewares = [\<lambda>r. Inr (True, r), \<lambda>r. Inr (False, r), \<lambda>r. Inr (True, r)],
       routes = createRouteTree, staticRoutes = [] \<rparr>
     \<lparr> req_method = ''GET'', pathname = ''/'', req_params = None \<rparr>
   = (Inr blocked_response, [MiddlewareCalled 0, MiddlewareCalled 1])"
proof -
  let ?app = "\<lparr> middlewares = [\<lambda>r. Inr (True, r), \<lambda>r. Inr (False, r), \<lambda>r. Inr (True, r)],
       routes = createRouteTree, staticRoutes = [] \<rparr>"
  let ?req = "\<lparr> req_method = ''GET'', pathname = ''/'', req_params = None \<rparr>"
  have 1: "1 < length (middlewares ?app)" by simp
  have 2: "passes (take 1 (middlewares ?app)) ?req = Some ?req" by simp
  have 3: "(middlewares ?app ! 1) ?req = Inr (False, ?req)" by simp
  have "[0..<Suc 1] = [0, 1]" by (simp add: upt_conv_Cons)
  thus ?thesis using blocking_middleware_halts[OF 1 2 3] by simp
qed

section \<open>The static fallback\<close>

lemma staticFallback_find:
  "staticFallback e xs path tr =
     (case find (\<lambda>kv. prefix (fst kv) path) xs of
        None \<Rightarrow> (Inr not_found_response, tr)
      | Some (pre, dir) \<Rightarrow>
          (case file_bytes e (join e dir (drop (length pre) path)) of
             Inr bytes \<Rightarrow> (Inr \<lparr> status = 200, body = Bytes bytes \<rparr>,
                           tr @ [FileRead (join e dir (drop (length pre) path))])
           | Inl cause \<Rightarrow> (Inr file_not_found_response,
                           tr @ [FileRead (join e dir (drop (length pre) path))])))"
  by (induction xs) (auto simp: Let_def split: sum.splits)

lemma find_append_skip: "\<forall>x\<in>set xs. \<not> P x \<Longrightarrow> find P (xs @ ys) = find P ys"
  by (induction xs) auto

lemma find_filter_keep: "(\<And>x. P x \<Longrightarrow> Q x) \<Longrightarrow> find P (filter Q xs) = find P xs"
  by (induction xs) auto

lemma array_index_no_prefix:
  "is_array_index k \<Longrightarrow> \<not> prefix k (CHR ''/'' # rest)"
  by (cases k) (auto simp: is_array_index_def is_digit_def)

lemma find_obj_entries:
  "find (\<lambda>kv. prefix (fst kv) (CHR ''/'' # rest)) (obj_entries obj)
     = find (\<lambda>kv. prefix (fst kv) (CHR ''/'' # rest)) obj"
proof -
  let ?P = "\<lambda>kv :: string \<times> 'a. prefix (fst kv) (CHR ''/'' # rest)"
  have a: "\<forall>x\<in>set (sort_key (\<lambda>kv. digits_value (fst kv)) (filter (\<lambda>kv. is_array_index (fst kv)) obj)). \<not> ?P x"
    using array_index_no_prefix by auto
  have b: "find ?P (filter (\<lambda>kv. \<not> is_array_index (fst kv)) obj) = find ?P obj"
    by (rule find_filter_keep) (use array_index_no_prefix in blast)
  show ?thesis unfolding obj_entries_def using find_append_skip[OF a] b by simp
qed

lemma set_obj_entries: "set (obj_entries obj) = set obj"
  by (auto simp: obj_entries_def)

lemma handle_fallback:
  assumes "passes (middlewares app) req = Some req1"
    and "matchRoute (routes app) (toUpperCase (req_method req)) (pathname req) = Inr None"
  shows "handle e app req
           = staticFallback e (obj_entries (staticRoutes app)) (pathname req)
               (map MiddlewareCalled [0..<length (middlewares app)])"
  using runMiddlewares_passes[OF assms(1), of 0 "[]"] assms(2)
  by (simp add: handle_def)

text \<open>
  The static fallback for a request of a method that has a route tree. When the request
  passes the middlewares, \<^verbatim>\<open>matchRoute\<close> returns no route and the path name begins
  with \<^verbatim>\<open>/\<close>, as the path name of an HTTP URL does, the first entry of
  \<^verbatim>\<open>staticRoutes\<close> in insertion order whose prefix is a prefix of the path decides
  the outcome: 200 with the bytes when the read of the joined path succeeds, 404
  \<^verbatim>\<open>File Not Found\<close> when it fails. The only file read is that one, so no later entry
  is consulted.
\<close>

lemma first_static_prefix_decides:
  assumes "passes (middlewares app) req = Some req1"
    and "matchRoute (routes app) (toUpperCase (req_method req)) (pathname req) = Inr None"
    and "pathname req = CHR ''/'' # rest"
    and "find (\<lambda>kv. prefix (fst kv) (pathname req)) (staticRoutes app) = Some (pre, dir)"
  shows "handle e app req =
           (case file_bytes e (join e dir (drop (length pre) (pathname req))) of
              Inr bytes \<Rightarrow> Inr \<lparr> status = 200, body = Bytes bytes \<rparr>
            | Inl cause \<Rightarrow> Inr \<lparr> status = 404, body = Text ''File Not Found'' \<rparr>,
            map MiddlewareCalled [0..<length (middlewares app)]
              @ [FileRead (join e dir (drop (length pre) (pathname req)))])"
proof -
  have "find (\<lambda>kv. prefix (fst kv) (pathname req)) (obj_entries (staticRoutes app)) = Some (pre, dir)"
    using find_obj_entries[of rest "staticRoutes app"] assms(3,4) by simp
  thus ?thesis
    by (simp add: handle_fallback[OF assms(1,2)] staticFallback_find file_not_found_response_def
             split: sum.splits)
qed

lemma first_static_prefix_decides_example:
  "handle \<lparr> join = (@), file_bytes = (\<lambda>f. if f = ''./bs/x.txt'' then Inr ''data'' else Inl NoSuchFile) \<rparr>
     \<lparr> middlewares = [], routes = createRouteTree,
       staticRoutes = [(''/s'', ''./a''), (''/'', ''./b'')] \<rparr>
     \<lparr> req_method = ''GET'', pathname = ''/s/x.txt'', req_params = None \<rparr>
   = (Inr \<lparr> status = 404, body = Text ''File Not Found'' \<rparr>, [FileRead ''./a/x.txt''])"
proof -
  let ?e = "\<lparr> join = (@), file_bytes = (\<lambda>f. if f = ''./bs/x.txt'' then Inr ''data'' else Inl NoSuchFile) \<rparr>"
  let ?app = "\<lparr> middlewares = [], routes = createRouteTree,
       staticRoutes = [(''/s'', ''./a''), (''/'', ''./b'')] \<rparr>"
  let ?req = "\<lparr> req_method = ''GET'', pathname = ''/s/x.txt'', req_params = None \<rparr>"
  have 1: "passes (middlewares ?app) ?req = Some ?req" by simp
  have 2: "matchRoute (routes ?app) (toUpperCase (req_method ?req)) (pathname ?req) = Inr None"
    by (simp add: matchRoute_def routes_lookup_def toUpperCase_def upper_char_def
                  createRouteTree_def parts_def)
  have 3: "pathname ?req = CHR ''/'' # ''s/x.txt''" by simp
  have 4: "find (\<lambda>kv. prefix (fst kv) (pathname ?req)) (staticRoutes ?app) = Some (''/s'', ''./a'')"
    by simp
  show ?thesis using first_static_prefix_decides[OF 1 2 3 4, of ?e] by simp
qed

text \<open>
  The answers 404 for a request of a method that has a route tree. When the request
  passes the middlewares and \<^verbatim>\<open>matchRoute\<close> returns no route: if no static prefix is
  a prefix of the path, \<^verbatim>\<open>handle\<close> returns 404 with the body \<^verbatim>\<open>Not Found\<close>; if
  the first matching static entry is reached and the file read fails, for whatever cause,
  \<^verbatim>\<open>handle\<close> returns 404 with the body \<^verbatim>\<open>File Not Found\<close>.
\<close>

lemma unmatched_request_not_found:
  assumes "passes (middlewares app) req = Some req1"
    and "matchRoute (routes app) (toUpperCase (req_method req)) (pathname req) = Inr None"
  shows "(list_all (\<lambda>kv. \<not> prefix (fst kv) (pathname req)) (staticRoutes app) \<longrightarrow>
            handle e app req
              = (Inr \<lparr> status = 404, body = Text ''Not Found'' \<rparr>,
                 map MiddlewareCalled [0..<length (middlewares app)]))
       \<and> (\<forall>pre dir cause.
            find (\<lambda>kv. prefix (fst kv) (pathname req)) (obj_entries (staticRoutes app)) = Some (pre, dir)
            \<and> file_bytes e (join e dir (drop (length pre) (pathname req))) = Inl cause \<longrightarrow>
            handle e app req
              = (Inr \<lparr> status = 404, body = Text ''File Not Found'' \<rparr>,
                 map MiddlewareCalled [0..<length (middlewares app)]
                   @ [FileRead (join e dir (drop (length pre) (pathname req)))]))"
proof -
  have a: "find (\<lambda>kv. prefix (fst kv) (pathname req)) (obj_entries (staticRoutes app)) = None"
    if "list_all (\<lambda>kv. \<not> prefix (fst kv) (pathname req)) (staticRoutes app)"
    using that by (fastforce simp: find_None_iff set_obj_entries list_all_iff)
  show ?thesis
    using a
    by (auto simp: handle_fallback[OF assms] staticFallback_find not_found_response_def
                   file_not_found_response_def)
qed

lemma unmatched_request_not_found_example:
  "handle \<lparr> join = (@), file_bytes = (\<lambda>f. Inl PermissionDenied) \<rparr>
     \<lparr> middlewares = [\<lambda>r. Inr (True, r)], routes = createRouteTree,
       staticRoutes = [(''/static'', ''./public'')] \<rparr>
     \<lparr> req_method = ''post'', pathname = ''/nothing'', req_params = None \<rparr>
   = (Inr \<lparr> status = 404, body = Text ''Not Found'' \<rparr>, [MiddlewareCalled 0])"
proof -
  let ?e = "\<lparr> join = (@), file_bytes = (\<lambda>f. Inl PermissionDenied) \<rparr>"
  let ?app = "\<lparr> middlewares = [\<lambda>r. Inr (True, r)], routes = createRouteTree,
       staticRoutes = [(''/static'', ''./public'')] \<rparr>"
  let ?req = "\<lparr> req_method = ''post'', pathname = ''/nothing'', req_params = None \<rparr>"
  have u: "toUpperCase ''post'' = ''POST''"
    by code_simp
  have 1: "passes (middlewares ?app) ?req = Some ?req" by simp
  have 2: "matchRoute (routes ?app) (toUpperCase (req_method ?req)) (pathname ?req) = Inr None"
    by (simp add: u matchRoute_def routes_lookup_def createRouteTree_def parts_def)
  have 3: "list_all (\<lambda>kv. \<not> prefix (fst kv) (pathname ?req)) (staticRoutes ?app)" by simp
  show ?thesis using unmatched_request_not_found[OF 1 2, of ?e] 3 by simp
qed

section \<open>Requests of other methods\<close>

text \<open>
  \<^verbatim>\<open>handle\<close> casts the upper-cased method to \<^verbatim>\<open>"GET" | "POST"\<close> without a test, and
  \<^verbatim>\<open>matchRoute\<close> reads \<^verbatim>\<open>this.routes[method].root\<close>. For any other method the
  lookup gives \<^verbatim>\<open>undefined\<close> and the read of \<^verbatim>\<open>.root\<close> throws, after the
  middlewares and before the static fallback.
\<close>

lemma handle_other_method:
  assumes "passes (middlewares app) req = Some req1"
    and "toUpperCase (req_method req) \<noteq> ''GET''" and "toUpperCase (req_method req) \<noteq> ''POST''"
  shows "handle e app req = (Inl TypeError, map MiddlewareCalled [0..<length (middlewares app)])"
  using runMiddlewares_passes[OF assms(1), of 0 "[]"] assms(2,3)
  by (simp add: handle_def matchRoute_def routes_lookup_def)

text \<open>
  C7. The claim asks 404 with the body \<^verbatim>\<open>Not Found\<close> for every request that matches
  no registered route and no static prefix. A PUT request to an application without
  routes, static routes and middlewares is such a request, and \<^verbatim>\<open>handle\<close> ends in the
  \<^verbatim>\<open>TypeError\<close> instead of a response; the same request as GET gets the 404.
\<close>

theorem unmatched_put_request_throws:
  "handle \<lparr> join = (@), file_bytes = (\<lambda>f. Inl NoSuchFile) \<rparr>
     \<lparr> middlewares = [], routes = createRouteTree, staticRoutes = [] \<rparr>
     \<lparr> req_method = ''PUT'', pathname = ''/nothing'', req_params = None \<rparr>
   = (Inl TypeError, [])
   \<and> handle \<lparr> join = (@), file_bytes = (\<lambda>f. Inl NoSuchFile) \<rparr>
     \<lparr> middlewares = [], routes = createRouteTree, staticRoutes = [] \<rparr>
     \<lparr> req_method = ''GET'', pathname = ''/nothing'', req_params = None \<rparr>
   = (Inr \<lparr> status = 404, body = Text ''Not Found'' \<rparr>, [])"
  by (simp add: handle_def matchRoute_def routes_lookup_def toUpperCase_def upper_char_def
                createRouteTree_def parts_def not_found_response_def obj_entries_def)

text \<open>
  C10. The claim lets the first matching static entry decide for every request whose path
  matches no route. A PUT request for \<^verbatim>\<open>/x.txt\<close>, with the prefix \<^verbatim>\<open>/\<close> served
  from a directory that holds the file, is such a request, and \<^verbatim>\<open>handle\<close> ends in the
  \<^verbatim>\<open>TypeError\<close> without reading any file; the same request as GET gets 200 with the
  bytes.
\<close>

theorem static_put_request_throws:
  "handle \<lparr> join = (@), file_bytes = (\<lambda>f. if f = ''./public/x.txt'' then Inr ''data'' else Inl NoSuchFile) \<rparr>
     \<lparr> middlewares = [], routes = createRouteTree, staticRoutes = [(''/'', ''./public/'')] \<rparr>
     \<lparr> req_method = ''PUT'', pathname = ''/x.txt'', req_params = None \<rparr>
   = (Inl TypeError, [])
   \<and> handle \<lparr> join = (@), file_bytes = (\<lambda>f. if f = ''./public/x.txt'' then Inr ''data'' else Inl NoSuchFile) \<rparr>
     \<lparr> middlewares = [], routes = createRouteTree, staticRoutes = [(''/'', ''./public/'')] \<rparr>
     \<lparr> req_method = ''GET'', pathname = ''/x.txt'', req_params = None \<rparr>
   = (Inr \<lparr> status = 200, body = Bytes ''data'' \<rparr>, [FileRead ''./public/x.txt''])"
  by (simp add: handle_def matchRoute_def routes_lookup_def toUpperCase_def upper_char_def
                createRouteTree_def parts_def obj_entries_def is_array_index_def is_digit_def)

section \<open>The handlers of a built tree\<close>

lemma ok_keypath_keypath: "valid_path p \<Longrightarrow> ok_keypath (keypath p)"
  using keypath_hd[of p] by (auto simp: ok_keypath_def keypath_def)

lemma handlerAt_insertAt_all:
  assumes "valid_path p" and "\<And>ks. ks \<noteq> [] \<Longrightarrow> handlerAt (''/'' # ks) r = None"
  shows "handlerAt kp (insertAt p h r) = (if kp = keypath p then Some h else handlerAt kp r)"
proof (cases "p = ''/''")
  case True
  show ?thesis
  proof (cases kp)
    case Nil thus ?thesis using True by (simp add: keypath_def)
  next
    case (Cons k ks)
    thus ?thesis using True assms(2)[of ks]
      by (auto simp: insertAt_def keypath_def update_conv')
  qed
next
  case False
  hence "parts p \<noteq> []" using assms(1) by (simp add: valid_path_def)
  thus ?thesis using False by (simp add: insertAt_def keypath_def handlerAt_addParts)
qed

lemma handler_inv_slash:
  assumes "handler_inv t R" "ks \<noteq> []"
  shows "handlerAt (''/'' # ks) (root_of m t) = None"
proof (rule ccontr)
  assume "handlerAt (''/'' # ks) (root_of m t) \<noteq> None"
  moreover have "(handlerAt (''/'' # ks) (root_of m t) \<noteq> None) = ((m, ''/'' # ks) \<in> R)"
    using assms(1) unfolding handler_inv_def by blast
  ultimately have "(m, ''/'' # ks) \<in> R" by blast
  hence "ok_keypath (''/'' # ks)" using assms(1) by (auto simp: handler_inv_def)
  thus False using assms(2) by (simp add: ok_keypath_def)
qed

lemma handler_inv_addRoute:
  assumes "handler_inv t R" "addRoute m p (Some h) t = Inr t'"
  shows "handler_inv t' (R \<union> {(m, keypath p)})"
proof -
  have v: "valid_path p" and t': "t' = set_root m (insertAt p h (root_of m t)) t"
    using assms(2) by (auto simp: addRoute_insertAt split: if_splits)
  have a: "handlerAt kp (insertAt p h (root_of m t))
             = (if kp = keypath p then Some h else handlerAt kp (root_of m t))" for kp
    by (rule handlerAt_insertAt_all[OF v]) (rule handler_inv_slash[OF assms(1)])
  have "(handlerAt kp (root_of m' t') \<noteq> None) = ((m', kp) \<in> R \<union> {(m, keypath p)})" for m' kp
    using assms(1) a[of kp] by (auto simp: t' root_of_set_root handler_inv_def)
  moreover have "ok_keypath kp" if "(m', kp) \<in> R \<union> {(m, keypath p)}" for m' kp
    using that assms(1) ok_keypath_keypath[OF v] by (auto simp: handler_inv_def)
  ultimately show ?thesis unfolding handler_inv_def by blast
qed

lemma defined_entries_simps [simp]:
  "defined_entries [] = []"
  "defined_entries ((p, h) # es) = (p, Some h) # defined_entries es"
  "map fst (defined_entries es) = map fst es"
  by (simp_all add: defined_entries_def comp_def)

lemma for_in_routes_None [simp]: "for_in_routes own None = defined_entries (obj_entries own)"
  by (simp add: for_in_routes_def)

lemma addRoute_fail: "addRoute m p (Some h) t = Inl e \<Longrightarrow> \<not> valid_path p"
  by (simp add: addRoute_insertAt split: if_splits)

lemma addRoute_ok: "addRoute m p (Some h) t = Inr t' \<Longrightarrow> valid_path p"
  by (simp add: addRoute_insertAt split: if_splits)

lemma handler_inv_addRoutes:
  assumes "handler_inv t R" "addRoutes m (defined_entries entries) t = (err, t')"
  shows "handler_inv t' (R \<union> terminals m (map fst entries))
         \<and> (err = None) = list_all valid_path (map fst entries)"
  using assms
proof (induction entries arbitrary: t R)
  case Nil
  thus ?case by (simp add: terminals_def)
next
  case (Cons x xs)
  obtain p h where x: "x = (p, h)" by (cases x)
  show ?case
  proof (cases "addRoute m p (Some h) t")
    case (Inl e)
    thus ?thesis using Cons.prems x addRoute_fail[OF Inl] by (auto simp: terminals_def)
  next
    case (Inr t1)
    have v: "valid_path p" using addRoute_ok[OF Inr] .
    have "addRoutes m (defined_entries xs) t1 = (err, t')" using Cons.prems(2) x Inr by simp
    from Cons.IH[OF handler_inv_addRoute[OF Cons.prems(1) Inr] this]
    show ?thesis using v x by (simp add: terminals_def Un_assoc)
  qed
qed

lemma handler_inv_registerBlueprint:
  assumes "handler_inv (routes app) R" and pg: "bp_GET_proto bp = None" and pp: "bp_POST_proto bp = None"
  shows "handler_inv (routes (snd (registerBlueprint bp app))) (R \<union> blueprint_terminals bp)"
proof -
  obtain e1 t1 where g: "addRoutes GET (defined_entries (obj_entries (bp_GET bp))) (routes app) = (e1, t1)"
    by (cases "addRoutes GET (defined_entries (obj_entries (bp_GET bp))) (routes app)")
  note G = handler_inv_addRoutes[OF assms(1) g]
  show ?thesis
  proof (cases e1)
    case (Some e)
    thus ?thesis using G g by (simp add: registerBlueprint_def blueprint_terminals_def pg pp)
  next
    case None
    obtain e2 t2 where p: "addRoutes POST (defined_entries (obj_entries (bp_POST bp))) t1 = (e2, t2)"
      by (cases "addRoutes POST (defined_entries (obj_entries (bp_POST bp))) t1")
    from handler_inv_addRoutes[OF conjunct1[OF G] p] None G g p
    show ?thesis by (simp add: registerBlueprint_def blueprint_terminals_def Un_assoc pg pp)
  qed
qed

lemma handler_inv_app_addRoute:
  assumes "handler_inv (routes app) R"
  shows "handler_inv (routes (snd (app_addRoute m path h app))) (R \<union> terminals m [path])"
proof (cases "addRoute m path (Some h) (routes app)")
  case (Inl e)
  thus ?thesis using assms addRoute_fail[OF Inl] by (simp add: app_addRoute_def terminals_def)
next
  case (Inr t1)
  thus ?thesis using handler_inv_addRoute[OF assms Inr] addRoute_ok[OF Inr]
    by (simp add: app_addRoute_def terminals_def)
qed

text \<open>
  The handlers of a built application sit exactly at the key paths of the completed
  registrations.
\<close>

lemma built_handler_inv: "built app R \<Longrightarrow> handler_inv (routes app) R"
proof (induction rule: built.induct)
  case built_new
  show ?case
    by (simp add: handler_inv_def new_Bunwork_def createRouteTree_def root_of_def split: http_method.splits)
next
  case (built_get app R path h)
  thus ?case using handler_inv_app_addRoute[of app R GET path h] by (simp add: get_def)
next
  case (built_post app R path h)
  thus ?case using handler_inv_app_addRoute[of app R POST path h] by (simp add: post_def)
next
  case (built_blueprint app R bp)
  show ?case using built_blueprint.IH built_blueprint.hyps(2,3)
    by (rule handler_inv_registerBlueprint)
next
  case (built_middleware app R fn)
  thus ?case by (simp add: middleware_def)
next
  case (built_static app R route dir)
  thus ?case by (simp add: static_def)
qed

section \<open>Distinct keys\<close>









lemma landing_covers:
  "landing q r = Some (kp, prm) \<Longrightarrow> covers kp (request_parts q)"
  using landing_cases[of q r kp prm] by (auto simp: covers_def)

text \<open>
  C3. In an application built as above, a match for a method string and a path returns a
  handler only when the walk consumed every segment and landed on a node that carries
  that handler, at which a registered pattern of that method terminates. When no
  registered pattern of the method terminates at a key path that covers the request's
  segments (each key the segment itself or \<^verbatim>\<open>:\<close>, one per segment), as when the
  request is a strict prefix of the registered patterns, \<^verbatim>\<open>matchRoute\<close> returns no
  match, and a request with that method and path that passes the middlewares and starts
  with no static prefix is answered 404 \<^verbatim>\<open>Not Found\<close>.
\<close>

theorem match_requires_terminal_handler:
  assumes "built app R"
  shows "(matchRoute (routes app) ms q = Inr (Some (h, prm)) \<longrightarrow>
            (\<exists>m kp. ms = method_name m
               \<and> landing q (root_of m (routes app)) = Some (kp, prm)
               \<and> handlerAt kp (root_of m (routes app)) = Some h
               \<and> (m, kp) \<in> R))
       \<and> ((\<forall>kp. (m, kp) \<in> R \<longrightarrow> \<not> covers kp (request_parts q)) \<longrightarrow>
            matchRoute (routes app) (method_name m) q = Inr None
            \<and> (\<forall>e req req1.
                  pathname req = q \<and> toUpperCase (req_method req) = method_name m
                  \<and> passes (middlewares app) req = Some req1
                  \<and> list_all (\<lambda>kv. \<not> prefix (fst kv) q) (staticRoutes app) \<longrightarrow>
                  handle e app req
                    = (Inr \<lparr> status = 404, body = Text ''Not Found'' \<rparr>,
                       map MiddlewareCalled [0..<length (middlewares app)])))"
proof -
  note inv = built_handler_inv[OF assms]
  have R: "(handlerAt kp (root_of m' (routes app)) \<noteq> None) = ((m', kp) \<in> R)" for m' kp
    using inv unfolding handler_inv_def by blast
  have a: "\<exists>m kp. ms = method_name m
               \<and> landing q (root_of m (routes app)) = Some (kp, prm)
               \<and> handlerAt kp (root_of m (routes app)) = Some h
               \<and> (m, kp) \<in> R"
    if mr: "matchRoute (routes app) ms q = Inr (Some (h, prm))"
  proof -
    from mr obtain root where l: "routes_lookup (routes app) ms = Some root"
      by (auto simp: matchRoute_landing split: option.splits)
    then obtain m where m: "ms = method_name m" "root = root_of m (routes app)"
      by (auto simp: routes_lookup_def method_name_def root_of_def split: if_splits
               intro: that[of GET] that[of POST])
    from mr l obtain kp where k: "landing q root = Some (kp, prm)" "handlerAt kp root = Some h"
      by (auto simp: matchRoute_landing split: option.splits)
    hence "(m, kp) \<in> R" using R[of kp m] m by simp
    thus ?thesis using m k by blast
  qed
  have b: "matchRoute (routes app) (method_name m) q = Inr None"
    if nc: "\<forall>kp. (m, kp) \<in> R \<longrightarrow> \<not> covers kp (request_parts q)"
  proof (cases "landing q (root_of m (routes app))")
    case None
    thus ?thesis by (simp add: matchRoute_landing routes_lookup_method_name)
  next
    case (Some x)
    obtain kp prm where x: "x = (kp, prm)" by (cases x)
    have "covers kp (request_parts q)" using landing_covers Some x by blast
    hence "(m, kp) \<notin> R" using nc by blast
    hence "handlerAt kp (root_of m (routes app)) = None" using R[of kp m] by simp
    thus ?thesis using Some x by (simp add: matchRoute_landing routes_lookup_method_name)
  qed
  have c: "handle e app req
             = (Inr \<lparr> status = 404, body = Text ''Not Found'' \<rparr>,
                map MiddlewareCalled [0..<length (middlewares app)])"
    if "matchRoute (routes app) (method_name m) q = Inr None"
       "pathname req = q" "toUpperCase (req_method req) = method_name m"
       "passes (middlewares app) req = Some req1"
       "list_all (\<lambda>kv. \<not> prefix (fst kv) q) (staticRoutes app)" for e req req1
  proof -
    have f: "find (\<lambda>kv. prefix (fst kv) q) (obj_entries (staticRoutes app)) = None"
      using that(5) by (fastforce simp: find_None_iff set_obj_entries list_all_iff)
    have "matchRoute (routes app) (toUpperCase (req_method req)) (pathname req) = Inr None"
      using that(1,2,3) by simp
    from handle_fallback[OF that(4) this] f that(2)
    show ?thesis by (simp add: staticFallback_find not_found_response_def)
  qed
  show ?thesis using a b c by blast
qed

theorem match_requires_terminal_handler_witness:
  "matchRoute (routes (snd (get ''/hello/:name'' (\<lambda>r. Inr not_found_response) new_Bunwork)))
     ''GET'' ''/hello'' = Inr None"
proof -
  let ?h = "\<lambda>r :: request. (Inr not_found_response :: error + response)"
  have k: "terminals GET [''/hello/:name''] = {(GET, [''hello'', '':''])}"
    by (simp add: terminals_def valid_path_def keypath_def key_of_def parts_def)
  have "built (snd (get ''/hello/:name'' ?h new_Bunwork)) ({} \<union> terminals GET [''/hello/:name''])"
    by (rule built_get) (rule built_new)
  hence b: "built (snd (get ''/hello/:name'' ?h new_Bunwork)) {(GET, [''hello'', '':''])}"
    using k by simp
  have c: "\<forall>kp. (GET, kp) \<in> {(GET, [''hello'', '':''])} \<longrightarrow> \<not> covers kp (request_parts ''/hello'')"
    by (simp add: covers_def request_parts_def parts_def)
  show ?thesis
    using match_requires_terminal_handler[OF b, where m=GET and q="''/hello''"] c
    by (simp add: method_name_def)
qed

section \<open>Merging a blueprint\<close>











text \<open>
  A route stored under \<^verbatim>\<open>__proto__\<close> is not inserted: the blueprint with the empty
  prefix and the one route \<^verbatim>\<open>__proto__\<close> has no own key, the loop of
  \<^verbatim>\<open>registerBlueprint\<close> meets the inherited key \<^verbatim>\<open>handler\<close> and registers that path
  with \<^verbatim>\<open>undefined\<close> as handler, and neither \<^verbatim>\<open>/__proto__\<close> nor
  \<^verbatim>\<open>/handler\<close> matches afterwards.
\<close>

lemma blueprint_proto_key_not_inserted:
  "\<exists>app'. registerBlueprint
            (bp_get ''__proto__'' (\<lambda>r. Inr not_found_response) (new_Blueprint []))
            new_Bunwork = (None, app')
      \<and> GET_root (routes app') = [(''handler'', RouteNode [] None None)]
      \<and> matchRoute (routes app') ''GET'' ''/__proto__'' = Inr None
      \<and> matchRoute (routes app') ''GET'' ''/handler'' = Inr None"
  by (simp add: registerBlueprint_def bp_get_def new_Blueprint_def new_Bunwork_def obj_entries_def
                for_in_routes_def defined_entries_def addRoute_def parts_def matchRoute_def
                routes_lookup_def createRouteTree_def root_of_def set_root_def finish_def)

end
